theory Spec2Isabelle
  imports Main "HOL-Library.AList" "HOL-Library.Sublist" "HOL-Library.Multiset"
begin

section \<open>The store: objects of cache.ts\<close>

text \<open>
  cache.ts works with four kinds of mutable objects: the Cache itself, \<^verbatim>\<open>Set<string>\<close>
  (the allowed orgs), \<^verbatim>\<open>Map<string, ToolInfo[]>\<close> (the tool cache) and \<^verbatim>\<open>ToolInfo[]\<close>
  arrays. Several claims are about which object a reference points to (a snapshot held
  by a caller, "the same mapping reference", "a defensive copy"), so objects live in an
  explicit store and the program passes addresses around. Every kind of object has its
  own store, a list, and the address of an object is its index; allocating appends, so a
  new object never has the address of an old one. Nothing is ever freed. Sets, maps and
  arrays make up the heap; the Cache objects are kept beside it, in the state of the
  process.

  A \<^verbatim>\<open>Map<string, ToolInfo[]>\<close> is the list of its entries in insertion order; the value
  of an entry is the address of an array. \<^verbatim>\<open>ToolInfo\<close> is imported from types.js and
  never inspected: it is the type parameter \<open>'t\<close>.

  The Cache object is a \<^verbatim>\<open>Map\<close> from the two keys of \<^verbatim>\<open>CacheContents\<close> to a set and a tool
  map. Its private constructor sets both keys and no method of the class removes one,
  so the object is a record of two references and \<^verbatim>\<open>get\<close> is total, as its declared
  type \<^verbatim>\<open>CacheContents[K]\<close> says.
\<close>

type_synonym addr = nat

datatype key = AllowedOrgs | Tools

record cache =
  allowedOrgs :: addr
  tools :: addr

record 't heap =
  Sets :: "string list list"
  Maps :: "(string \<times> addr) list list"
  Arrays :: "'t list list"

text \<open>\<^verbatim>\<open>new Set<string>()\<close>\<close>

definition new_Set :: "'t heap \<Rightarrow> addr \<times> 't heap" where
  "new_Set h = (length (Sets h), h\<lparr>Sets := Sets h @ [[]]\<rparr>)"

text \<open>An array literal or any other newly built array with elements \<open>xs\<close>.\<close>

definition new_Array :: "'t list \<Rightarrow> 't heap \<Rightarrow> addr \<times> 't heap" where
  "new_Array xs h = (length (Arrays h), h\<lparr>Arrays := Arrays h @ [xs]\<rparr>)"

text \<open>\<^verbatim>\<open>[...tools]\<close>: a new array with the elements of the array at \<open>a\<close>.\<close>

definition spread :: "addr \<Rightarrow> 't heap \<Rightarrow> addr \<times> 't heap" where
  "spread a h = new_Array (Arrays h ! a) h"

text \<open>\<^verbatim>\<open>new Map(entries)\<close> from a literal list of entries.\<close>

definition new_Map_of :: "(string \<times> addr) list \<Rightarrow> 't heap \<Rightarrow> addr \<times> 't heap" where
  "new_Map_of es h = (length (Maps h), h\<lparr>Maps := Maps h @ [es]\<rparr>)"

text \<open>\<^verbatim>\<open>new Map(toolMap)\<close>: a new map with the entries of the map at \<open>m\<close>.\<close>

definition new_Map :: "addr \<Rightarrow> 't heap \<Rightarrow> addr \<times> 't heap" where
  "new_Map m h = new_Map_of (Maps h ! m) h"

text \<open>\<^verbatim>\<open>m.has(k)\<close> and \<^verbatim>\<open>m.get(k)\<close> (\<open>None\<close> is \<^verbatim>\<open>undefined\<close>).\<close>

definition Map_has :: "'t heap \<Rightarrow> addr \<Rightarrow> string \<Rightarrow> bool" where
  "Map_has h m k = (map_of (Maps h ! m) k \<noteq> None)"

definition Map_get :: "'t heap \<Rightarrow> addr \<Rightarrow> string \<Rightarrow> addr option" where
  "Map_get h m k = map_of (Maps h ! m) k"

text \<open>
  \<^verbatim>\<open>m.set(k, v)\<close> and \<^verbatim>\<open>m.delete(k)\<close> change the object at \<open>m\<close> in place. Setting an
  existing key keeps its position, a new key goes to the end.
\<close>

definition Map_set :: "addr \<Rightarrow> string \<Rightarrow> addr \<Rightarrow> 't heap \<Rightarrow> 't heap" where
  "Map_set m k v h = h\<lparr>Maps := (Maps h)[m := AList.update k v (Maps h ! m)]\<rparr>"

definition Map_delete :: "addr \<Rightarrow> string \<Rightarrow> 't heap \<Rightarrow> 't heap" where
  "Map_delete m k h = h\<lparr>Maps := (Maps h)[m := AList.delete k (Maps h ! m)]\<rparr>"

section \<open>The Cache class\<close>

text \<open>
  The state of the process: the static field \<^verbatim>\<open>Cache.instance\<close> (\<open>None\<close> until the first
  \<^verbatim>\<open>getInstance\<close>), the Cache objects and the heap.
\<close>

record 't world =
  Cache_instance :: "addr option"
  Caches :: "cache list"
  heap :: "'t heap"

text \<open>\<^verbatim>\<open>cache.get(key)\<close> and \<^verbatim>\<open>cache.set(key, value)\<close> on the Cache object at \<open>cache\<close>.\<close>

definition Cache_get :: "addr \<Rightarrow> key \<Rightarrow> 't world \<Rightarrow> addr" where
  "Cache_get cache k w =
     (case k of AllowedOrgs \<Rightarrow> allowedOrgs (Caches w ! cache) | Tools \<Rightarrow> tools (Caches w ! cache))"

definition Cache_set :: "addr \<Rightarrow> key \<Rightarrow> addr \<Rightarrow> 't world \<Rightarrow> 't world" where
  "Cache_set cache k v w =
     w\<lparr>Caches := (Caches w)[cache :=
          (case k of AllowedOrgs \<Rightarrow> (Caches w ! cache)\<lparr>allowedOrgs := v\<rparr>
                   | Tools \<Rightarrow> (Caches w ! cache)\<lparr>tools := v\<rparr>)]\<rparr>"

definition DEFAULT_TOOL_SESSION_ID :: string where
  "DEFAULT_TOOL_SESSION_ID = ''default''"

text \<open>
  \<^verbatim>\<open>new Cache()\<close>: the constructor calls \<^verbatim>\<open>initialize\<close>, which builds the empty set, the
  empty array and the one-entry map and sets the two keys.
\<close>

definition new_Cache :: "'t world \<Rightarrow> addr \<times> 't world" where
  "new_Cache w =
     (case new_Set (heap w) of (orgs, h1) \<Rightarrow>
      case new_Array [] h1 of (arr, h2) \<Rightarrow>
      case new_Map_of [(DEFAULT_TOOL_SESSION_ID, arr)] h2 of (toolMap, h3) \<Rightarrow>
        (length (Caches w),
         w\<lparr>Caches := Caches w @ [\<lparr>allowedOrgs = orgs, tools = toolMap\<rparr>], heap := h3\<rparr>))"

text \<open>\<^verbatim>\<open>Cache.instance ??= new Cache()\<close>\<close>

definition getInstance :: "'t world \<Rightarrow> addr \<times> 't world" where
  "getInstance w =
     (case Cache_instance w of
        Some cache \<Rightarrow> (cache, w)
      | None \<Rightarrow> (case new_Cache w of (cache, w1) \<Rightarrow>
                  (cache, w1\<lparr>Cache_instance := Some cache\<rparr>)))"

text \<open>
  Modelled from the spec: \<^verbatim>\<open>Mutex.lock\<close> of @salesforce/core, which is not part of the
  sources. The spec's gate runs the body of a critical section as one uninterrupted
  unit, releases on every exit path and hands the body's result, or its failure, to the
  caller. In a sequential run that is the body itself.
\<close>

definition lock :: "('s \<Rightarrow> 'r \<times> 's) \<Rightarrow> 's \<Rightarrow> 'r \<times> 's" where
  "lock fn s = fn s"

text \<open>
  An asynchronous method returns a promise: \<open>Inr v\<close> when it is fulfilled with \<open>v\<close>,
  \<open>Inl e\<close> when it is rejected with the thrown value \<open>e\<close>. The update function given to
  \<^verbatim>\<open>safeUpdate\<close> gets the current value (a reference) and works on the heap: it may
  allocate, as the closures below do, and it may throw. It has no hand on the Cache
  object itself (the spec forbids it to come back to the cache).
\<close>

type_synonym ('e, 't) updater = "addr \<Rightarrow> 't heap \<Rightarrow> ('e + addr) \<times> 't heap"

text \<open>The function that \<^verbatim>\<open>safeUpdate\<close> passes to \<^verbatim>\<open>Cache.mutex.lock\<close>.\<close>

definition safeUpdate_section ::
  "addr \<Rightarrow> key \<Rightarrow> ('e, 't) updater \<Rightarrow> 't world \<Rightarrow> ('e + addr) \<times> 't world" where
  "safeUpdate_section cache k updateFn s =
     (let currentValue = Cache_get cache k s in
      case updateFn currentValue (heap s) of
        (Inl e, h) \<Rightarrow> (Inl e, s\<lparr>heap := h\<rparr>)
      | (Inr newValue, h) \<Rightarrow> (Inr newValue, Cache_set cache k newValue (s\<lparr>heap := h\<rparr>)))"

definition safeUpdate :: "key \<Rightarrow> ('e, 't) updater \<Rightarrow> 't world \<Rightarrow> ('e + addr) \<times> 't world" where
  "safeUpdate k updateFn w =
     (case getInstance w of (cache, w1) \<Rightarrow> lock (safeUpdate_section cache k updateFn) w1)"

definition safeGet :: "key \<Rightarrow> 't world \<Rightarrow> ('e + addr) \<times> 't world" where
  "safeGet k w =
     (case getInstance w of (cache, w1) \<Rightarrow> lock (\<lambda>s. (Inr (Cache_get cache k s), s)) w1)"

definition safeSet :: "key \<Rightarrow> addr \<Rightarrow> 't world \<Rightarrow> ('e + unit) \<times> 't world" where
  "safeSet k v w =
     (case getInstance w of (cache, w1) \<Rightarrow>
        lock (\<lambda>s. (Inr (), Cache_set cache k v s)) w1)"

text \<open>\<^verbatim>\<open>sessionId ?? Cache.DEFAULT_TOOL_SESSION_ID\<close>; an omitted argument is \<open>None\<close>.\<close>

definition resolveToolSessionId :: "string option \<Rightarrow> string" where
  "resolveToolSessionId sessionId =
     (case sessionId of None \<Rightarrow> DEFAULT_TOOL_SESSION_ID | Some s \<Rightarrow> s)"

text \<open>An awaited promise whose value the method drops (\<^verbatim>\<open>Promise<void>\<close>).\<close>

definition void :: "('e + 'a) \<times> 's \<Rightarrow> ('e + unit) \<times> 's" where
  "void r = (case r of (Inl e, s) \<Rightarrow> (Inl e, s) | (Inr _, s) \<Rightarrow> (Inr (), s))"

definition ensureToolSession :: "string option \<Rightarrow> 't world \<Rightarrow> ('e + unit) \<times> 't world" where
  "ensureToolSession sessionId w =
     (let resolvedSessionId = resolveToolSessionId sessionId in
      void (safeUpdate Tools (\<lambda>toolMap h.
        if Map_has h toolMap resolvedSessionId then (Inr toolMap, h)
        else
          case new_Map toolMap h of (updated, h1) \<Rightarrow>
          case new_Array [] h1 of (arr, h2) \<Rightarrow>
            (Inr updated, Map_set updated resolvedSessionId arr h2)) w))"

definition resetToolsForSession :: "string option \<Rightarrow> 't world \<Rightarrow> ('e + unit) \<times> 't world" where
  "resetToolsForSession sessionId w =
     (let resolvedSessionId = resolveToolSessionId sessionId in
      void (safeUpdate Tools (\<lambda>toolMap h.
        case new_Map toolMap h of (updated, h1) \<Rightarrow>
        case new_Array [] h1 of (arr, h2) \<Rightarrow>
          (Inr updated, Map_set updated resolvedSessionId arr h2)) w))"

definition deleteToolSession :: "string option \<Rightarrow> 't world \<Rightarrow> ('e + unit) \<times> 't world" where
  "deleteToolSession sessionId w =
     (let resolvedSessionId = resolveToolSessionId sessionId in
      void (safeUpdate Tools (\<lambda>toolMap h.
        if \<not> Map_has h toolMap resolvedSessionId then (Inr toolMap, h)
        else
          case new_Map toolMap h of (updated, h1) \<Rightarrow>
            (Inr updated, Map_delete updated resolvedSessionId h1)) w))"

text \<open>\<^verbatim>\<open>toolMap.get(id) ?? []\<close>: the array of the session, or a new empty array.\<close>

definition get_or_empty :: "addr \<Rightarrow> string \<Rightarrow> 't heap \<Rightarrow> addr \<times> 't heap" where
  "get_or_empty toolMap k h =
     (case Map_get h toolMap k of Some a \<Rightarrow> (a, h) | None \<Rightarrow> new_Array [] h)"

definition getToolsForSession :: "string option \<Rightarrow> 't world \<Rightarrow> ('e + addr) \<times> 't world" where
  "getToolsForSession sessionId w =
     (let resolvedSessionId = resolveToolSessionId sessionId in
      case safeGet Tools w of
        (Inl e, w1) \<Rightarrow> (Inl e, w1)
      | (Inr toolMap, w1) \<Rightarrow>
          (case get_or_empty toolMap resolvedSessionId (heap w1) of (sessionTools, h1) \<Rightarrow>
           case spread sessionTools h1 of (copy, h2) \<Rightarrow> (Inr copy, w1\<lparr>heap := h2\<rparr>)))"

text \<open>
  The update function given to \<^verbatim>\<open>updateToolsForSession\<close> is, as the spec requires of
  it, a function of the sequence it is given: it maps the elements of the copy to the
  elements of the array it returns, or throws. The array it returns is a new object.

  \<open>updateTools_fn\<close> is the function that \<^verbatim>\<open>updateToolsForSession\<close> passes to
  \<^verbatim>\<open>safeUpdate\<close>. It assigns the returned array to the captured variable
  \<^verbatim>\<open>updatedTools\<close>, which starts as a new empty array, and binds the session to the same
  array in the new map; the value of the variable after the call is therefore read back
  from the map that \<^verbatim>\<open>safeUpdate\<close> returned.
\<close>

definition updateTools_fn :: "string \<Rightarrow> ('t list \<Rightarrow> 'e + 't list) \<Rightarrow> ('e, 't) updater" where
  "updateTools_fn resolvedSessionId updateFn toolMap h =
     (case get_or_empty toolMap resolvedSessionId h of (existingTools, h1) \<Rightarrow>
      case spread existingTools h1 of (copy, h2) \<Rightarrow>
       (case updateFn (Arrays h2 ! copy) of
          Inl e \<Rightarrow> (Inl e, h2)
        | Inr ys \<Rightarrow>
            (case new_Array ys h2 of (updatedTools, h3) \<Rightarrow>
             case new_Map toolMap h3 of (updatedMap, h4) \<Rightarrow>
               (Inr updatedMap, Map_set updatedMap resolvedSessionId updatedTools h4))))"

definition updateToolsForSession ::
  "string option \<Rightarrow> ('t list \<Rightarrow> 'e + 't list) \<Rightarrow> 't world \<Rightarrow> ('e + addr) \<times> 't world" where
  "updateToolsForSession sessionId updateFn w =
     (let resolvedSessionId = resolveToolSessionId sessionId in
      case new_Array [] (heap w) of (initialTools, h0) \<Rightarrow>
       (case safeUpdate Tools (updateTools_fn resolvedSessionId updateFn) (w\<lparr>heap := h0\<rparr>) of
          (Inl e, w1) \<Rightarrow> (Inl e, w1)
        | (Inr updatedMap, w1) \<Rightarrow>
            (Inr (case Map_get (heap w1) updatedMap resolvedSessionId of
                    Some updatedTools \<Rightarrow> updatedTools
                  | None \<Rightarrow> initialTools), w1)))"

section \<open>Observations and invariants\<close>

text \<open>
  \<open>heap_le h h'\<close>: every set, map and array of \<open>h\<close> is in \<open>h'\<close> at the same address with
  the same contents; \<open>h'\<close> may hold more objects.
\<close>

definition heap_le :: "'t heap \<Rightarrow> 't heap \<Rightarrow> bool" where
  "heap_le h h' =
     (prefix (Sets h) (Sets h') \<and> prefix (Maps h) (Maps h') \<and> prefix (Arrays h) (Arrays h'))"

text \<open>
  A store is well formed when no reference dangles: every entry of every map refers to
  an array of the store, every Cache object to a set and a map of the store, and
  \<^verbatim>\<open>Cache.instance\<close> to a Cache object. JavaScript has no dangling references, so every
  state of a run is well formed.
\<close>

definition wf_heap :: "'t heap \<Rightarrow> bool" where
  "wf_heap h = list_all (\<lambda>m. list_all (\<lambda>(k, a). a < length (Arrays h)) m) (Maps h)"

definition wf_world :: "'t world \<Rightarrow> bool" where
  "wf_world w =
     (wf_heap (heap w) \<and>
      list_all (\<lambda>c. allowedOrgs c < length (Sets (heap w)) \<and> tools c < length (Maps (heap w)))
        (Caches w) \<and>
      (case Cache_instance w of None \<Rightarrow> True | Some cache \<Rightarrow> cache < length (Caches w)))"

text \<open>The contents of the map at \<open>m\<close>: its session keys, in order, each with its sequence.\<close>

definition snapshot :: "'t heap \<Rightarrow> addr \<Rightarrow> (string \<times> 't list) list" where
  "snapshot h m = map (\<lambda>(k, a). (k, Arrays h ! a)) (Maps h ! m)"

text \<open>
  What the next access finds under a key (the first access creates the singleton): the
  reference stored there, and the contents of both entries.
\<close>

definition entry :: "'t world \<Rightarrow> key \<Rightarrow> addr" where
  "entry w k = (case getInstance w of (cache, w1) \<Rightarrow> Cache_get cache k w1)"

definition cache_state :: "'t world \<Rightarrow> string list \<times> (string \<times> 't list) list" where
  "cache_state w =
     (case getInstance w of (cache, w1) \<Rightarrow>
        (Sets (heap w1) ! Cache_get cache AllowedOrgs w1,
         snapshot (heap w1) (Cache_get cache Tools w1)))"

text \<open>The sequence stored for a session, \<open>None\<close> when the session has no entry.\<close>

definition session_tools :: "'t world \<Rightarrow> string option \<Rightarrow> 't list option" where
  "session_tools w sessionId =
     (case getInstance w of (cache, w1) \<Rightarrow>
        map_option (\<lambda>a. Arrays (heap w1) ! a)
          (Map_get (heap w1) (Cache_get cache Tools w1) (resolveToolSessionId sessionId)))"

text \<open>The sequence that a fulfilled promise of an array delivers.\<close>

definition returned :: "('e + addr) \<times> 't world \<Rightarrow> 't list option" where
  "returned r = (case r of (Inl e, w) \<Rightarrow> None | (Inr a, w) \<Rightarrow> Some (Arrays (heap w) ! a))"

text \<open>
  A caller mutating the array at \<open>a\<close> in place (\<^verbatim>\<open>push\<close>, \<^verbatim>\<open>splice\<close>, an assignment to an
  index): afterwards the array holds some elements \<open>ys\<close>.
\<close>

definition Array_assign :: "addr \<Rightarrow> 't list \<Rightarrow> 't heap \<Rightarrow> 't heap" where
  "Array_assign a ys h = h\<lparr>Arrays := (Arrays h)[a := ys]\<rparr>"

text \<open>A process that has not touched the cache yet, with an empty store.\<close>

definition fresh_world :: "nat world" where
  "fresh_world =
     \<lparr>Cache_instance = None, Caches = [], heap = \<lparr>Sets = [], Maps = [], Arrays = []\<rparr>\<rparr>"

text \<open>The same process after one update has put the tool 7 into the session s1.\<close>

definition populated_world :: "nat world" where
  "populated_world =
     snd (updateToolsForSession (Some ''s1'') (\<lambda>ts. Inr (ts @ [7]) :: unit + nat list) fresh_world)"

text \<open>The singleton exists and \<open>cache\<close> is the reference to it.\<close>

definition live :: "'t world \<Rightarrow> addr \<Rightarrow> bool" where
  "live w cache = (Cache_instance w = Some cache \<and> cache < length (Caches w))"

text \<open>
  The sequence of a session as \<^verbatim>\<open>getToolsForSession\<close> and \<^verbatim>\<open>updateToolsForSession\<close> read it:
  empty when the session has no entry.
\<close>

definition cur :: "'t world \<Rightarrow> string option \<Rightarrow> 't list" where
  "cur w sid = (case session_tools w sid of Some ts \<Rightarrow> ts | None \<Rightarrow> [])"

text \<open>
  What every tool-session operation keeps, from a state \<open>w\<close> with the singleton at
  \<open>cache\<close> to its result \<open>w'\<close>: well-formedness, the singleton, every set, map and array
  of \<open>w\<close>, the store of sets as a whole, and the reference under \<^verbatim>\<open>allowedOrgs\<close>.
\<close>

definition frame :: "'t world \<Rightarrow> addr \<Rightarrow> 't world \<Rightarrow> bool" where
  "frame w cache w' =
     (wf_world w' \<and> live w' cache \<and> heap_le (heap w) (heap w') \<and>
      Sets (heap w') = Sets (heap w) \<and>
      allowedOrgs (Caches w' ! cache) = allowedOrgs (Caches w ! cache))"

section \<open>Concurrent calls\<close>


text \<open>
  The code of \<^verbatim>\<open>updateToolsForSession\<close> up to the gate: the variable \<^verbatim>\<open>updatedTools\<close> gets
  its empty array and \<^verbatim>\<open>safeUpdate\<close> fetches the singleton. The result is the reference
  that the critical section works with.
\<close>

definition updateTools_launch :: "'t world \<Rightarrow> addr \<times> 't world" where
  "updateTools_launch w = getInstance (w\<lparr>heap := snd (new_Array [] (heap w))\<rparr>)"


section \<open>An update function with a side effect\<close>


section \<open>Executing the operations\<close>

lemmas heap_defs = new_Set_def new_Array_def spread_def new_Map_of_def new_Map_def Map_has_def
  Map_get_def Map_set_def Map_delete_def get_or_empty_def

lemmas cache_defs = Cache_get_def Cache_set_def new_Cache_def getInstance_def lock_def
  safeUpdate_section_def safeUpdate_def safeGet_def safeSet_def void_def

text \<open>
  \<^verbatim>\<open>getInstance\<close> keeps a well-formed state well formed, leaves the singleton in place
  and changes nothing when called again.
\<close>

lemma getInstance_live:
  assumes "wf_world w" "getInstance w = (cache, w1)"
  shows "wf_world w1" "live w1 cache" "heap_le (heap w) (heap w1)"
proof -
  show "wf_world w1"
    using assms
    by (cases "Cache_instance w")
       (fastforce simp: wf_world_def wf_heap_def heap_defs cache_defs list_all_iff less_Suc_eq)+
  show "live w1 cache" "heap_le (heap w) (heap w1)"
    using assms
    by (auto simp: live_def wf_world_def heap_le_def heap_defs cache_defs split: option.splits)
qed

lemma getInstance_idem: "getInstance w = (cache, w1) \<Longrightarrow> getInstance w1 = (cache, w1)"
  by (auto simp: cache_defs heap_defs split: option.splits)

lemma live_getInstance: "live w cache \<Longrightarrow> getInstance w = (cache, w)"
  by (simp add: live_def getInstance_def)

lemma safe_getInstance:
  assumes "getInstance w = (cache, w1)"
  shows "safeUpdate k f w = safeUpdate k f w1"
    and "safeGet k w = safeGet k w1"
    and "safeSet k v w = safeSet k v w1"
  using assms getInstance_idem[OF assms]
  by (simp_all add: safeUpdate_def safeGet_def safeSet_def)

lemma ops_getInstance:
  assumes "getInstance w = (cache, w1)"
  shows "ensureToolSession sid w = ensureToolSession sid w1"
    and "resetToolsForSession sid w = resetToolsForSession sid w1"
    and "deleteToolSession sid w = deleteToolSession sid w1"
    and "getToolsForSession sid w = getToolsForSession sid w1"
  by (simp_all add: ensureToolSession_def resetToolsForSession_def deleteToolSession_def
      getToolsForSession_def safe_getInstance[OF assms])

lemma obs_getInstance:
  assumes "getInstance w = (cache, w1)"
  shows "entry w k = entry w1 k"
    and "cache_state w = cache_state w1"
    and "session_tools w sid = session_tools w1 sid"
  using assms getInstance_idem[OF assms]
  by (simp_all add: entry_def cache_state_def session_tools_def)

text \<open>The observations in a state in which the singleton exists.\<close>

lemma live_obs:
  assumes "live w cache"
  shows "entry w k =
           (case k of AllowedOrgs \<Rightarrow> allowedOrgs (Caches w ! cache) | Tools \<Rightarrow> tools (Caches w ! cache))"
    and "cache_state w =
           (Sets (heap w) ! allowedOrgs (Caches w ! cache),
            snapshot (heap w) (tools (Caches w ! cache)))"
    and "session_tools w sid =
           map_option (\<lambda>a. Arrays (heap w) ! a)
             (map_of (Maps (heap w) ! tools (Caches w ! cache)) (resolveToolSessionId sid))"
  using live_getInstance[OF assms]
  by (simp_all add: entry_def cache_state_def session_tools_def Cache_get_def Map_get_def)

text \<open>
  What each operation does to a state in which the singleton exists, written out. Here
  \<open>c\<close> is the Cache object and \<open>tools c\<close> the tool map it refers to before the call.
\<close>

lemma ensure_exec:
  assumes "live w cache"
  shows "ensureToolSession sid w = (Inr (),
     (let h = heap w; c = Caches w ! cache; rid = resolveToolSessionId sid in
      if map_of (Maps h ! tools c) rid \<noteq> None then w
      else w\<lparr>Caches := (Caches w)[cache := c\<lparr>tools := length (Maps h)\<rparr>],
             heap := h\<lparr>Maps := Maps h @ [AList.update rid (length (Arrays h)) (Maps h ! tools c)],
                        Arrays := Arrays h @ [[]]\<rparr>\<rparr>))"
  using assms
  by (simp add: live_def ensureToolSession_def heap_defs cache_defs Let_def)

lemma reset_exec:
  assumes "live w cache"
  shows "resetToolsForSession sid w = (Inr (),
     (let h = heap w; c = Caches w ! cache; rid = resolveToolSessionId sid in
      w\<lparr>Caches := (Caches w)[cache := c\<lparr>tools := length (Maps h)\<rparr>],
        heap := h\<lparr>Maps := Maps h @ [AList.update rid (length (Arrays h)) (Maps h ! tools c)],
                  Arrays := Arrays h @ [[]]\<rparr>\<rparr>))"
  using assms
  by (simp add: live_def resetToolsForSession_def heap_defs cache_defs Let_def)

lemma delete_exec:
  assumes "live w cache"
  shows "deleteToolSession sid w = (Inr (),
     (let h = heap w; c = Caches w ! cache; rid = resolveToolSessionId sid in
      if map_of (Maps h ! tools c) rid = None then w
      else w\<lparr>Caches := (Caches w)[cache := c\<lparr>tools := length (Maps h)\<rparr>],
             heap := h\<lparr>Maps := Maps h @ [AList.delete rid (Maps h ! tools c)]\<rparr>\<rparr>))"
  using assms
  by (simp add: live_def deleteToolSession_def heap_defs cache_defs Let_def)

lemma get_exec:
  assumes "live w cache"
  shows "getToolsForSession sid w =
     (let h = heap w; c = Caches w ! cache; rid = resolveToolSessionId sid in
      case map_of (Maps h ! tools c) rid of
        Some a \<Rightarrow> (Inr (length (Arrays h)), w\<lparr>heap := h\<lparr>Arrays := Arrays h @ [Arrays h ! a]\<rparr>\<rparr>)
      | None \<Rightarrow> (Inr (Suc (length (Arrays h))), w\<lparr>heap := h\<lparr>Arrays := Arrays h @ [[], []]\<rparr>\<rparr>))"
  using assms
  by (simp add: live_def getToolsForSession_def heap_defs cache_defs Let_def split: option.splits)

lemma section_exec:
  assumes "live w cache"
  shows "safeUpdate_section cache Tools (updateTools_fn rid f) w =
     (let h = heap w; c = Caches w ! cache;
          xs = (case map_of (Maps h ! tools c) rid of Some a \<Rightarrow> Arrays h ! a | None \<Rightarrow> []);
          pre = (case map_of (Maps h ! tools c) rid of Some a \<Rightarrow> [xs] | None \<Rightarrow> [[], []]);
          n = length (Arrays h) + length pre
      in case f xs of
        Inl e \<Rightarrow> (Inl e, w\<lparr>heap := h\<lparr>Arrays := Arrays h @ pre\<rparr>\<rparr>)
      | Inr ys \<Rightarrow> (Inr (length (Maps h)),
          w\<lparr>Caches := (Caches w)[cache := c\<lparr>tools := length (Maps h)\<rparr>],
            heap := h\<lparr>Maps := Maps h @ [AList.update rid n (Maps h ! tools c)],
                      Arrays := Arrays h @ pre @ [ys]\<rparr>\<rparr>))"
  using assms
  by (simp add: live_def updateTools_fn_def heap_defs cache_defs Let_def nth_append
      split: option.splits sum.splits)

text \<open>A call of \<^verbatim>\<open>updateToolsForSession\<close> is its launch followed at once by its section.\<close>

lemma update_unfold:
  "updateToolsForSession sid f w =
     (case updateTools_launch w of (cache, w1) \<Rightarrow>
      (case lock (safeUpdate_section cache Tools (updateTools_fn (resolveToolSessionId sid) f)) w1 of
        (Inl e, w2) \<Rightarrow> (Inl e, w2)
      | (Inr m, w2) \<Rightarrow>
          (Inr (case Map_get (heap w2) m (resolveToolSessionId sid) of
                  Some a \<Rightarrow> a | None \<Rightarrow> length (Arrays (heap w))), w2)))"
  by (cases "getInstance (w\<lparr>heap := snd (new_Array [] (heap w))\<rparr>)")
     (simp add: updateToolsForSession_def updateTools_launch_def safeUpdate_def new_Array_def Let_def)

text \<open>Well-formedness gives the references that the operations follow.\<close>

lemma wf_live:
  assumes "wf_world w" "live w cache"
  shows "tools (Caches w ! cache) < length (Maps (heap w))"
    and "allowedOrgs (Caches w ! cache) < length (Sets (heap w))"
    and "map_of (Maps (heap w) ! tools (Caches w ! cache)) k = Some a \<Longrightarrow> a < length (Arrays (heap w))"
proof -
  show t: "tools (Caches w ! cache) < length (Maps (heap w))"
    and "allowedOrgs (Caches w ! cache) < length (Sets (heap w))"
    using assms by (auto simp: wf_world_def live_def list_all_length)
  assume "map_of (Maps (heap w) ! tools (Caches w ! cache)) k = Some a"
  then have "(k, a) \<in> set (Maps (heap w) ! tools (Caches w ! cache))" by (rule map_of_SomeD)
  moreover have "Maps (heap w) ! tools (Caches w ! cache) \<in> set (Maps (heap w))" using t by simp
  ultimately show "a < length (Arrays (heap w))"
    using assms(1) by (fastforce simp: wf_world_def wf_heap_def list_all_iff)
qed

lemma map_option_nth_append:
  assumes "\<And>a. x = Some a \<Longrightarrow> a < length xs"
  shows "map_option (\<lambda>a. (xs @ ys) ! a) x = map_option ((!) xs) x"
  using assms by (cases x) (simp_all add: nth_append)

lemma get_spec_live:
  assumes "wf_world w" "live w cache"
  shows "returned (getToolsForSession sid w) = Some (cur w sid)"
    and "session_tools (snd (getToolsForSession sid w)) sid' = session_tools w sid'"
  using assms(2) wf_live[OF assms]
  by (auto simp: get_exec[OF assms(2)] live_obs[OF assms(2)] cur_def returned_def Let_def nth_append live_obs live_def
      split: option.splits cong: map_option_cong)

lemma ensure_spec_live:
  assumes "wf_world w" "live w cache"
  shows "session_tools (snd (ensureToolSession sid w)) sid' =
     (if resolveToolSessionId sid' = resolveToolSessionId sid then Some (cur w sid) else session_tools w sid')"
  using assms(2) wf_live[OF assms]
  by (auto simp: ensure_exec[OF assms(2)] live_obs[OF assms(2)] cur_def Let_def nth_append live_obs live_def update_conv'
      split: option.splits cong: map_option_cong)

lemma reset_spec_live:
  assumes "wf_world w" "live w cache"
  shows "session_tools (snd (resetToolsForSession sid w)) sid' =
     (if resolveToolSessionId sid' = resolveToolSessionId sid then Some [] else session_tools w sid')"
  using assms(2) wf_live[OF assms]
  by (auto simp: reset_exec[OF assms(2)] live_obs[OF assms(2)] cur_def Let_def nth_append live_obs live_def update_conv'
      split: option.splits cong: map_option_cong)

lemma delete_spec_live:
  assumes "wf_world w" "live w cache"
  shows "session_tools (snd (deleteToolSession sid w)) sid' =
     (if resolveToolSessionId sid' = resolveToolSessionId sid then None else session_tools w sid')"
  using assms(2) wf_live[OF assms]
  by (auto simp: delete_exec[OF assms(2)] live_obs[OF assms(2)] cur_def Let_def nth_append live_obs live_def delete_conv'
      split: option.splits cong: map_option_cong)

lemma set_update_subset: "set (AList.update k v al) \<subseteq> insert (k, v) (set al)"
  by (induction al) auto

lemma set_delete_subset: "set (AList.delete k al) \<subseteq> set al"
  by (auto simp: AList.delete_eq)

lemma wf_world_alloc:
  assumes "wf_world w"
  shows "wf_world (w\<lparr>heap := (heap w)\<lparr>Arrays := Arrays (heap w) @ as\<rparr>\<rparr>)"
proof -
  have "\<forall>m \<in> set (Maps (heap w)). \<forall>(k, a) \<in> set m. a < length (Arrays (heap w))"
    using assms by (simp add: wf_world_def wf_heap_def list_all_iff)
  then have "\<forall>m \<in> set (Maps (heap w)). \<forall>(k, a) \<in> set m. a < length (Arrays (heap w)) + length as"
    by fastforce
  then show ?thesis
    using assms by (simp add: wf_world_def wf_heap_def list_all_iff split: option.splits)
qed

lemma live_alloc: "live w cache \<Longrightarrow> live (w\<lparr>heap := h\<rparr>) cache"
  by (simp add: live_def)

lemma wf_world_extend:
  assumes "wf_world w" "live w cache"
    and "\<And>k a. (k, a) \<in> set es \<Longrightarrow>
           (k, a) \<in> set (Maps (heap w) ! tools (Caches w ! cache)) \<or> a < length (Arrays (heap w) @ new)"
  shows "wf_world (w\<lparr>Caches := (Caches w)[cache := (Caches w ! cache)\<lparr>tools := length (Maps (heap w))\<rparr>],
                    heap := (heap w)\<lparr>Maps := Maps (heap w) @ [es], Arrays := Arrays (heap w) @ new\<rparr>\<rparr>)"
proof -
  let ?h = "heap w" and ?c = "Caches w ! cache"
  have t: "tools ?c < length (Maps ?h)" using wf_live(1)[OF assms(1,2)] .
  have old: "\<forall>m \<in> set (Maps ?h). \<forall>(k, a) \<in> set m. a < length (Arrays ?h)"
    using assms(1) by (simp add: wf_world_def wf_heap_def list_all_iff)
  have "Maps ?h ! tools ?c \<in> set (Maps ?h)" using t by simp
  with old have cur: "\<forall>(k, a) \<in> set (Maps ?h ! tools ?c). a < length (Arrays ?h)" by blast
  have es: "\<forall>(k, a) \<in> set es. a < length (Arrays ?h @ new)"
    using assms(3) cur by fastforce
  have caches: "\<forall>c \<in> set (Caches w). allowedOrgs c < length (Sets ?h) \<and> tools c < length (Maps ?h)"
    using assms(1) by (simp add: wf_world_def list_all_iff)
  have c: "allowedOrgs ?c < length (Sets ?h)" using wf_live(2)[OF assms(1,2)] .
  have upd: "\<forall>c \<in> set ((Caches w)[cache := ?c\<lparr>tools := length (Maps ?h)\<rparr>]).
       allowedOrgs c < length (Sets ?h) \<and> tools c < Suc (length (Maps ?h))"
    using caches c by (fastforce dest: set_update_subset_insert[THEN subsetD])
  show ?thesis
    using old es upd assms(2)
    by (fastforce simp: wf_world_def wf_heap_def list_all_iff live_def split: option.splits)
qed

lemma heap_le_refl: "heap_le h h"
  by (simp add: heap_le_def)

lemma heap_le_trans: "heap_le h1 h2 \<Longrightarrow> heap_le h2 h3 \<Longrightarrow> heap_le h1 h3"
  by (auto simp: heap_le_def)

lemma frame_refl: "wf_world w \<Longrightarrow> live w cache \<Longrightarrow> frame w cache w"
  by (simp add: frame_def heap_le_refl)

lemma frame_alloc:
  "wf_world w \<Longrightarrow> live w cache \<Longrightarrow> frame w cache (w\<lparr>heap := (heap w)\<lparr>Arrays := Arrays (heap w) @ new\<rparr>\<rparr>)"
  by (simp add: frame_def wf_world_alloc live_alloc heap_le_def)

lemma frame_extend:
  assumes "wf_world w" "live w cache"
    and "\<And>k a. (k, a) \<in> set es \<Longrightarrow>
           (k, a) \<in> set (Maps (heap w) ! tools (Caches w ! cache)) \<or> a < length (Arrays (heap w) @ new)"
  shows "frame w cache
     (w\<lparr>Caches := (Caches w)[cache := (Caches w ! cache)\<lparr>tools := length (Maps (heap w))\<rparr>],
        heap := (heap w)\<lparr>Maps := Maps (heap w) @ [es], Arrays := Arrays (heap w) @ new\<rparr>\<rparr>)"
  using wf_world_extend[OF assms] assms(2)
  by (simp add: frame_def live_def heap_le_def)

lemma frame_set:
  assumes "wf_world w" "live w cache" "a < length (Arrays (heap w) @ new)"
  shows "frame w cache
     (w\<lparr>Caches := (Caches w)[cache := (Caches w ! cache)\<lparr>tools := length (Maps (heap w))\<rparr>],
        heap := (heap w)\<lparr>Maps := Maps (heap w) @ [AList.update k a (Maps (heap w) ! tools (Caches w ! cache))],
                         Arrays := Arrays (heap w) @ new\<rparr>\<rparr>)"
  using set_update_subset[of k a "Maps (heap w) ! tools (Caches w ! cache)"] assms(3)
  by (intro frame_extend[OF assms(1,2)]) auto

lemma frame_delete:
  assumes "wf_world w" "live w cache"
  shows "frame w cache
     (w\<lparr>Caches := (Caches w)[cache := (Caches w ! cache)\<lparr>tools := length (Maps (heap w))\<rparr>],
        heap := (heap w)\<lparr>Maps := Maps (heap w) @ [AList.delete k (Maps (heap w) ! tools (Caches w ! cache))]\<rparr>\<rparr>)"
  using set_delete_subset[of k "Maps (heap w) ! tools (Caches w ! cache)"]
    frame_extend[OF assms, of "AList.delete k (Maps (heap w) ! tools (Caches w ! cache))" "[]"]
  by auto

lemma ensure_frame_live:
  assumes "wf_world w" "live w cache"
  shows "frame w cache (snd (ensureToolSession sid w))"
  using frame_set[OF assms, of "length (Arrays (heap w))" "[[]]"] frame_refl[OF assms]
  by (simp add: ensure_exec[OF assms(2)] Let_def)

lemma reset_frame_live:
  assumes "wf_world w" "live w cache"
  shows "frame w cache (snd (resetToolsForSession sid w))"
  using frame_set[OF assms, of "length (Arrays (heap w))" "[[]]"]
  by (simp add: reset_exec[OF assms(2)] Let_def)

lemma delete_frame_live:
  assumes "wf_world w" "live w cache"
  shows "frame w cache (snd (deleteToolSession sid w))"
  using frame_delete[OF assms] frame_refl[OF assms]
  by (simp add: delete_exec[OF assms(2)] Let_def)

lemma get_frame_live:
  assumes "wf_world w" "live w cache"
  shows "frame w cache (snd (getToolsForSession sid w))"
  using frame_alloc[OF assms]
  by (simp add: get_exec[OF assms(2)] Let_def split: option.splits)

lemma section_frame_live:
  assumes "wf_world w" "live w cache"
  shows "frame w cache (snd (safeUpdate_section cache Tools (updateTools_fn rid f) w))"
proof (cases "map_of (Maps (heap w) ! tools (Caches w ! cache)) rid")
  case None
  show ?thesis
    using frame_alloc[OF assms, of "[[], []]"]
      frame_set[OF assms, of "Suc (Suc (length (Arrays (heap w))))" "[[], [], ys]" for ys]
    by (simp add: section_exec[OF assms(2)] Let_def None split: sum.splits)
next
  case (Some a)
  show ?thesis
    using frame_alloc[OF assms, of "[Arrays (heap w) ! a]"]
      frame_set[OF assms, of "Suc (length (Arrays (heap w)))" "[Arrays (heap w) ! a, ys]" for ys]
    by (simp add: section_exec[OF assms(2)] Let_def Some split: sum.splits)
qed


text \<open>
  A map of a well-formed store reads the same in every later store.
\<close>

lemma snapshot_mono:
  assumes "wf_heap h" "m < length (Maps h)" "heap_le h h'"
  shows "snapshot h' m = snapshot h m"
proof -
  from assms(3) obtain ms new where ms: "Maps h' = Maps h @ ms" and new: "Arrays h' = Arrays h @ new"
    by (auto simp: heap_le_def prefix_def)
  have "Maps h ! m \<in> set (Maps h)" using assms(2) by simp
  then have "\<forall>(k, a) \<in> set (Maps h ! m). a < length (Arrays h)"
    using assms(1) by (auto simp: wf_heap_def list_all_iff)
  then show ?thesis
    using assms(2) by (auto simp: snapshot_def ms new nth_append)
qed

lemma obs_alloc:
  fixes w :: "'t world" and new :: "'t list list"
  assumes "wf_world w"
  shows "entry (w\<lparr>heap := (heap w)\<lparr>Arrays := Arrays (heap w) @ new\<rparr>\<rparr>) k = entry w k \<and>
         cache_state (w\<lparr>heap := (heap w)\<lparr>Arrays := Arrays (heap w) @ new\<rparr>\<rparr>) = cache_state w \<and>
         session_tools (w\<lparr>heap := (heap w)\<lparr>Arrays := Arrays (heap w) @ new\<rparr>\<rparr>) sid = session_tools w sid \<and>
         fst (getInstance (w\<lparr>heap := (heap w)\<lparr>Arrays := Arrays (heap w) @ new\<rparr>\<rparr>)) = fst (getInstance w)"
    (is "entry ?w0 k = _ \<and> _")
proof (cases "Cache_instance w")
  case None
  then show ?thesis
    by (auto simp: entry_def cache_state_def session_tools_def snapshot_def heap_defs cache_defs nth_append
        split: key.splits)
next
  case (Some cache)
  then have l: "live w cache" and l0: "live ?w0 cache"
    using assms(1) by (auto simp: live_def wf_world_def)
  have "snapshot (heap ?w0) (tools (Caches w ! cache)) = snapshot (heap w) (tools (Caches w ! cache))"
    using assms(1) wf_live(1)[OF assms(1) l]
    by (intro snapshot_mono) (auto simp: wf_world_def heap_le_def)
  then show ?thesis
    using wf_live[OF assms(1) l]
    by (auto simp: live_obs[OF l] live_obs[OF l0] live_getInstance[OF l] live_getInstance[OF l0] nth_append
        split: key.splits cong: map_option_cong)
qed

lemma launch_props:
  assumes "wf_world w" "updateTools_launch w = (cache, w1)"
  shows "wf_world w1" "live w1 cache" "heap_le (heap w) (heap w1)"
    and "entry w1 k = entry w k" "cache_state w1 = cache_state w"
    and "session_tools w1 sid = session_tools w sid"
    and "fst (getInstance w) = cache"
proof -
  let ?w0 = "w\<lparr>heap := (heap w)\<lparr>Arrays := Arrays (heap w) @ [[]]\<rparr>\<rparr>"
  have g: "getInstance ?w0 = (cache, w1)"
    using assms(2) by (simp add: updateTools_launch_def new_Array_def)
  have wf0: "wf_world ?w0" by (rule wf_world_alloc[OF assms(1)])
  show "wf_world w1" "live w1 cache" using getInstance_live[OF wf0 g] by auto
  have "heap_le (heap w) (heap ?w0)" by (simp add: heap_le_def)
  then show "heap_le (heap w) (heap w1)" using getInstance_live(3)[OF wf0 g] by (rule heap_le_trans)
  show "entry w1 k = entry w k" "cache_state w1 = cache_state w" "session_tools w1 sid = session_tools w sid"
    using obs_getInstance[OF g] obs_alloc[OF assms(1), of "[[]]"] by simp_all
  show "fst (getInstance w) = cache" using obs_alloc[OF assms(1), of "[[]]"] g by simp
qed

section \<open>What the operations do to the sessions\<close>

lemma ops_frame:
  assumes "wf_world w" "getInstance w = (cache, w1)"
  shows "frame w1 cache (snd (ensureToolSession sid w))"
    and "frame w1 cache (snd (resetToolsForSession sid w))"
    and "frame w1 cache (snd (deleteToolSession sid w))"
    and "frame w1 cache (snd (getToolsForSession sid w))"
  using getInstance_live(1,2)[OF assms]
  by (simp_all add: ops_getInstance[OF assms(2)] ensure_frame_live reset_frame_live
      delete_frame_live get_frame_live)

lemma ops_spec:
  assumes "wf_world w"
  shows "session_tools (snd (ensureToolSession sid w)) sid' =
           (if resolveToolSessionId sid' = resolveToolSessionId sid then Some (cur w sid)
            else session_tools w sid')"
    and "session_tools (snd (resetToolsForSession sid w)) sid' =
           (if resolveToolSessionId sid' = resolveToolSessionId sid then Some []
            else session_tools w sid')"
    and "session_tools (snd (deleteToolSession sid w)) sid' =
           (if resolveToolSessionId sid' = resolveToolSessionId sid then None
            else session_tools w sid')"
    and "session_tools (snd (getToolsForSession sid w)) sid' = session_tools w sid'"
    and "returned (getToolsForSession sid w) = Some (cur w sid)"
proof -
  obtain cache w1 where g: "getInstance w = (cache, w1)" by (cases "getInstance w")
  note l = getInstance_live(1,2)[OF assms g]
  have c: "cur w sid = cur w1 sid" by (simp add: cur_def obs_getInstance(3)[OF g])
  show "session_tools (snd (ensureToolSession sid w)) sid' =
           (if resolveToolSessionId sid' = resolveToolSessionId sid then Some (cur w sid)
            else session_tools w sid')"
    by (simp add: ops_getInstance[OF g] obs_getInstance(3)[OF g] c ensure_spec_live[OF l])
  show "session_tools (snd (resetToolsForSession sid w)) sid' =
           (if resolveToolSessionId sid' = resolveToolSessionId sid then Some []
            else session_tools w sid')"
    by (simp add: ops_getInstance[OF g] obs_getInstance(3)[OF g] reset_spec_live[OF l])
  show "session_tools (snd (deleteToolSession sid w)) sid' =
           (if resolveToolSessionId sid' = resolveToolSessionId sid then None
            else session_tools w sid')"
    by (simp add: ops_getInstance[OF g] obs_getInstance(3)[OF g] delete_spec_live[OF l])
  show "session_tools (snd (getToolsForSession sid w)) sid' = session_tools w sid'"
    by (simp add: ops_getInstance[OF g] obs_getInstance(3)[OF g] get_spec_live[OF l])
  show "returned (getToolsForSession sid w) = Some (cur w sid)"
    by (simp add: ops_getInstance[OF g] c get_spec_live[OF l])
qed

lemma update_snd:
  assumes "updateTools_launch w = (cache, w1)"
  shows "snd (updateToolsForSession sid f w) =
         snd (safeUpdate_section cache Tools (updateTools_fn (resolveToolSessionId sid) f) w1)"
  by (simp add: update_unfold assms lock_def split: prod.splits sum.splits)

lemma update_frame:
  assumes "wf_world w" "updateTools_launch w = (cache, w1)"
  shows "frame w1 cache (snd (updateToolsForSession sid f w))"
  using launch_props(1,2)[OF assms]
  by (simp add: update_snd[OF assms(2)] section_frame_live)


lemma section_result_live:
  assumes "wf_world w" "live w cache"
  shows "f (cur w sid) = Inl e \<Longrightarrow>
           fst (safeUpdate_section cache Tools (updateTools_fn (resolveToolSessionId sid) f) w) = Inl e"
    and "f (cur w sid) = Inr ys \<Longrightarrow>
           safeUpdate_section cache Tools (updateTools_fn (resolveToolSessionId sid) f) w = (Inr m, w2) \<Longrightarrow>
             \<exists>a. Map_get (heap w2) m (resolveToolSessionId sid) = Some a \<and> Arrays (heap w2) ! a = ys"
    and "f (cur w sid) = Inr ys \<Longrightarrow>
           \<exists>m. fst (safeUpdate_section cache Tools (updateTools_fn (resolveToolSessionId sid) f) w) = Inr m"
  using assms(2) wf_live[OF assms(1,2)]
  by (auto simp: section_exec[OF assms(2)] live_obs[OF assms(2)] cur_def Let_def nth_append Map_get_def update_conv'
      split: option.splits sum.splits)

lemma update_result:
  assumes "wf_world w"
  shows "f (cur w sid) = Inl e \<Longrightarrow> fst (updateToolsForSession sid f w) = Inl e"
    and "f (cur w sid) = Inr ys \<Longrightarrow> returned (updateToolsForSession sid f w) = Some ys"
proof -
  obtain cache w1 where g: "updateTools_launch w = (cache, w1)" by (cases "updateTools_launch w")
  note l = launch_props[OF assms g]
  have c: "cur w1 sid = cur w sid" by (simp add: cur_def l(6))
  note r = section_result_live[OF l(1,2), of f sid, unfolded c]
  show "f (cur w sid) = Inl e \<Longrightarrow> fst (updateToolsForSession sid f w) = Inl e"
    using r(1) by (auto simp: update_unfold g lock_def split: prod.splits sum.splits)
  assume ys: "f (cur w sid) = Inr ys"
  obtain res w2 where s: "safeUpdate_section cache Tools (updateTools_fn (resolveToolSessionId sid) f) w1 = (res, w2)"
    by (cases "safeUpdate_section cache Tools (updateTools_fn (resolveToolSessionId sid) f) w1")
  from r(3)[OF ys] s obtain m where m: "res = Inr m" by auto
  from r(2)[OF ys, of m w2] s m obtain a where
    "Map_get (heap w2) m (resolveToolSessionId sid) = Some a" "Arrays (heap w2) ! a = ys" by auto
  then show "returned (updateToolsForSession sid f w) = Some ys"
    by (simp add: update_unfold g lock_def s m returned_def)
qed


lemma frameD:
  assumes "frame w cache w'"
  shows "wf_world w'" and "live w' cache" and "heap_le (heap w) (heap w')"
    and "Sets (heap w') = Sets (heap w)"
    and "allowedOrgs (Caches w' ! cache) = allowedOrgs (Caches w ! cache)"
  using assms by (simp_all add: frame_def)

lemma ops_wf:
  assumes "wf_world w"
  shows "wf_world (snd (ensureToolSession sid w))"
    and "wf_world (snd (resetToolsForSession sid w))"
    and "wf_world (snd (deleteToolSession sid w))"
    and "wf_world (snd (getToolsForSession sid w))"
    and "wf_world (snd (updateToolsForSession sid f w))"
proof -
  obtain cache w1 where g: "getInstance w = (cache, w1)" by (cases "getInstance w")
  obtain cache' w1' where u: "updateTools_launch w = (cache', w1')" by (cases "updateTools_launch w")
  show "wf_world (snd (ensureToolSession sid w))"
    by (rule frameD(1)[OF ops_frame(1)[OF assms g]])
  show "wf_world (snd (resetToolsForSession sid w))"
    by (rule frameD(1)[OF ops_frame(2)[OF assms g]])
  show "wf_world (snd (deleteToolSession sid w))"
    by (rule frameD(1)[OF ops_frame(3)[OF assms g]])
  show "wf_world (snd (getToolsForSession sid w))"
    by (rule frameD(1)[OF ops_frame(4)[OF assms g]])
  show "wf_world (snd (updateToolsForSession sid f w))"
    by (rule frameD(1)[OF update_frame[OF assms u]])
qed

lemma ops_heap_le:
  assumes "wf_world w"
  shows "heap_le (heap w) (heap (snd (ensureToolSession sid w)))"
    and "heap_le (heap w) (heap (snd (resetToolsForSession sid w)))"
    and "heap_le (heap w) (heap (snd (deleteToolSession sid w)))"
    and "heap_le (heap w) (heap (snd (getToolsForSession sid w)))"
    and "heap_le (heap w) (heap (snd (updateToolsForSession sid f w)))"
proof -
  obtain cache w1 where g: "getInstance w = (cache, w1)" by (cases "getInstance w")
  obtain cache' w1' where u: "updateTools_launch w = (cache', w1')" by (cases "updateTools_launch w")
  note a = getInstance_live(3)[OF assms g] and b = launch_props(3)[OF assms u]
  show "heap_le (heap w) (heap (snd (ensureToolSession sid w)))"
    by (rule heap_le_trans[OF a frameD(3)[OF ops_frame(1)[OF assms g]]])
  show "heap_le (heap w) (heap (snd (resetToolsForSession sid w)))"
    by (rule heap_le_trans[OF a frameD(3)[OF ops_frame(2)[OF assms g]]])
  show "heap_le (heap w) (heap (snd (deleteToolSession sid w)))"
    by (rule heap_le_trans[OF a frameD(3)[OF ops_frame(3)[OF assms g]]])
  show "heap_le (heap w) (heap (snd (getToolsForSession sid w)))"
    by (rule heap_le_trans[OF a frameD(3)[OF ops_frame(4)[OF assms g]]])
  show "heap_le (heap w) (heap (snd (updateToolsForSession sid f w)))"
    by (rule heap_le_trans[OF b frameD(3)[OF update_frame[OF assms u]]])
qed

text \<open>The value read under the \<^verbatim>\<open>tools\<close> key is a map of the store.\<close>

lemma safeGet_Tools_in_store:
  assumes "wf_world w" and "safeGet Tools w = (r, w1)"
  shows "wf_world w1 \<and> r = Inr (entry w Tools) \<and> entry w Tools < length (Maps (heap w1))"
proof -
  obtain cache v where g: "getInstance w = (cache, v)" by (cases "getInstance w")
  note l = getInstance_live(1,2)[OF assms(1) g]
  have "w1 = v" and "r = Inr (Cache_get cache Tools v)"
    using assms(2) by (auto simp: safeGet_def g lock_def)
  then show ?thesis
    using l wf_live(1)[OF l] by (simp add: entry_def g Cache_get_def)
qed

text \<open>Allocation and a write to one key of the Cache object, as the observations see them.\<close>

lemma prefix_nth: "prefix xs ys \<Longrightarrow> i < length xs \<Longrightarrow> ys ! i = xs ! i"
  by (auto simp: prefix_def nth_append)

lemma obs_heap_le:
  assumes "wf_world w" "live w cache" "heap_le (heap w) h'"
  shows "entry (w\<lparr>heap := h'\<rparr>) k = entry w k"
    and "cache_state (w\<lparr>heap := h'\<rparr>) = cache_state w"
proof -
  have l': "live (w\<lparr>heap := h'\<rparr>) cache" using assms(2) by (simp add: live_def)
  show "entry (w\<lparr>heap := h'\<rparr>) k = entry w k"
    by (simp add: live_obs(1)[OF l'] live_obs(1)[OF assms(2)] split: key.splits)
  have "wf_heap (heap w)" using assms(1) by (simp add: wf_world_def)
  then have "snapshot h' (tools (Caches w ! cache)) = snapshot (heap w) (tools (Caches w ! cache))"
    using wf_live(1)[OF assms(1,2)] assms(3) by (rule snapshot_mono)
  moreover have "Sets h' ! allowedOrgs (Caches w ! cache) = Sets (heap w) ! allowedOrgs (Caches w ! cache)"
    using assms(3) wf_live(2)[OF assms(1,2)] by (simp add: heap_le_def prefix_nth)
  ultimately show "cache_state (w\<lparr>heap := h'\<rparr>) = cache_state w"
    by (simp add: live_obs(2)[OF l'] live_obs(2)[OF assms(2)])
qed

lemma get_shape:
  assumes "live w1 cache" "getToolsForSession s w1 = (r, w')"
  shows "\<exists>a new. r = Inr a \<and> w' = w1\<lparr>heap := (heap w1)\<lparr>Arrays := Arrays (heap w1) @ new\<rparr>\<rparr> \<and>
           length (Arrays (heap w1)) \<le> a"
  using assms(2) by (auto simp: get_exec[OF assms(1)] Let_def split: option.splits)


lemma frame_orgs:
  assumes "wf_world w1" "live w1 cache" "frame w1 cache w'"
  shows "entry w' AllowedOrgs = entry w1 AllowedOrgs"
    and "fst (cache_state w') = fst (cache_state w1)"
  using frameD(4,5)[OF assms(3)]
  by (simp_all add: live_obs[OF frameD(2)[OF assms(3)]] live_obs[OF assms(2)])

lemma safeSet_exec:
  assumes "live w cache"
  shows "safeSet k v w = (Inr (), Cache_set cache k v w)"
  by (simp add: safeSet_def live_getInstance[OF assms] lock_def)

lemma Cache_set_other:
  assumes "live w cache" "k' \<noteq> k"
  shows "entry (Cache_set cache k v w) k' = entry w k'"
proof -
  have l': "live (Cache_set cache k v w) cache"
    using assms(1) by (simp add: live_def Cache_set_def)
  have "entry (Cache_set cache k v w) k' =
      (case k' of AllowedOrgs \<Rightarrow> allowedOrgs (Caches (Cache_set cache k v w) ! cache)
                | Tools \<Rightarrow> tools (Caches (Cache_set cache k v w) ! cache))"
    by (rule live_obs(1)[OF l'])
  also have "\<dots> = entry w k'"
    using assms by (cases k; cases k'; simp add: live_obs(1)[OF assms(1)] Cache_set_def live_def)
  finally show ?thesis .
qed

lemma Cache_set_orgs_tools:
  assumes "live w cache"
  shows "snd (cache_state (Cache_set cache AllowedOrgs v w)) = snd (cache_state w)"
proof -
  have l': "live (Cache_set cache AllowedOrgs v w) cache"
    using assms(1) by (simp add: live_def Cache_set_def)
  have "cache_state (Cache_set cache AllowedOrgs v w) =
      (Sets (heap (Cache_set cache AllowedOrgs v w)) !
         allowedOrgs (Caches (Cache_set cache AllowedOrgs v w) ! cache),
       snapshot (heap (Cache_set cache AllowedOrgs v w))
         (tools (Caches (Cache_set cache AllowedOrgs v w) ! cache)))"
    by (rule live_obs(2)[OF l'])
  then show ?thesis
    using assms by (simp add: live_obs(2)[OF assms(1)] Cache_set_def live_def)
qed

section \<open>Calls one after the other\<close>


section \<open>Two concrete states\<close>

lemmas op_defs = updateToolsForSession_def updateTools_fn_def ensureToolSession_def resetToolsForSession_def
  deleteToolSession_def getToolsForSession_def resolveToolSessionId_def DEFAULT_TOOL_SESSION_ID_def

lemma populated_world_eq:
  "populated_world =
     \<lparr>Cache_instance = Some 0, Caches = [\<lparr>allowedOrgs = 0, tools = 1\<rparr>],
      heap = \<lparr>Sets = [[]], Maps = [[(''default'', 1)], [(''default'', 1), (''s1'', 4)]],
               Arrays = [[], [], [], [], [7]]\<rparr>\<rparr>"
  by (simp add: populated_world_def fresh_world_def op_defs heap_defs cache_defs Let_def)

lemma wf_populated: "wf_world populated_world"
  by (simp add: populated_world_eq wf_world_def wf_heap_def)

lemma session_tools_populated:
  "session_tools populated_world (Some ''s1'') = Some [7]"
  "session_tools populated_world (Some ''s2'') = None"
  by (simp_all add: populated_world_eq session_tools_def getInstance_def Cache_get_def Map_get_def
      resolveToolSessionId_def)

lemma getInstance_populated: "getInstance populated_world = (0, populated_world)"
  by (simp add: populated_world_eq getInstance_def)

section \<open>Initialization\<close>

text \<open>
  C9. When the singleton does not exist yet, \<^verbatim>\<open>getInstance\<close> creates it with
  \<^verbatim>\<open>allowedOrgs\<close> an empty set and \<^verbatim>\<open>tools\<close> a map with the single entry from
  \<open>''default''\<close> to an empty sequence. \<^verbatim>\<open>getToolsForSession()\<close> without an argument then
  returns an empty sequence, whether it is called after the creation or is itself the
  first access, and \<^verbatim>\<open>resolveToolSessionId(undefined)\<close> is \<open>''default''\<close>.
\<close>

theorem initialization_postcondition:
  assumes "Cache_instance w = None"
  shows "case getInstance w of (cache, w1) \<Rightarrow>
           Cache_instance w1 = Some cache \<and>
           Sets (heap w1) ! Cache_get cache AllowedOrgs w1 = [] \<and>
           snapshot (heap w1) (Cache_get cache Tools w1) = [(''default'', [])] \<and>
           returned (getToolsForSession None w1 :: ('e + addr) \<times> 't world) = Some [] \<and>
           returned (getToolsForSession None w :: ('e + addr) \<times> 't world) = Some [] \<and>
           resolveToolSessionId None = ''default''"
proof -
  obtain cache w1 where g: "getInstance w = (cache, w1)" by (cases "getInstance w")
  have l: "live w1 cache"
    and c: "Caches w1 ! cache = \<lparr>allowedOrgs = length (Sets (heap w)), tools = length (Maps (heap w))\<rparr>"
    and h: "heap w1 = (heap w)\<lparr>Sets := Sets (heap w) @ [[]],
          Maps := Maps (heap w) @ [[(''default'', length (Arrays (heap w)))]],
          Arrays := Arrays (heap w) @ [[]]\<rparr>"
    using assms g by (auto simp: live_def getInstance_def new_Cache_def heap_defs DEFAULT_TOOL_SESSION_ID_def)
  have "returned (getToolsForSession None w1 :: ('e + addr) \<times> 't world) = Some []"
    by (simp add: get_exec[OF l] c h returned_def resolveToolSessionId_def DEFAULT_TOOL_SESSION_ID_def
        nth_append)
  moreover have "(getToolsForSession None w :: ('e + addr) \<times> 't world) = getToolsForSession None w1"
    by (rule ops_getInstance(4)[OF g])
  ultimately show ?thesis
    using l by (simp add: g c h snapshot_def live_def Cache_get_def
         resolveToolSessionId_def DEFAULT_TOOL_SESSION_ID_def)
qed

text \<open>The theorem at the fresh process.\<close>

theorem initialization_postcondition_witness:
  "Cache_instance fresh_world = None \<and>
   (case getInstance fresh_world of (cache, w1) \<Rightarrow>
           Cache_instance w1 = Some cache \<and>
           Sets (heap w1) ! Cache_get cache AllowedOrgs w1 = [] \<and>
           snapshot (heap w1) (Cache_get cache Tools w1) = [(''default'', [])] \<and>
           returned (getToolsForSession None w1 :: (unit + addr) \<times> nat world) = Some [] \<and>
           returned (getToolsForSession None fresh_world :: (unit + addr) \<times> nat world) = Some [] \<and>
           resolveToolSessionId None = ''default'')"
  using initialization_postcondition[of fresh_world] by (simp add: fresh_world_def)

section \<open>Copy on write\<close>

text \<open>
  C1. Let \<open>T1\<close> be a map object of a well-formed state, in particular the value of the
  \<^verbatim>\<open>tools\<close> key read at any earlier time (lemma \<open>safeGet_Tools_in_store\<close>; the
  operations keep well-formedness and never remove an object, lemmas \<open>ops_wf\<close> and
  \<open>ops_heap_le\<close>). After
  \<^verbatim>\<open>ensureToolSession\<close>, \<^verbatim>\<open>resetToolsForSession\<close>, \<^verbatim>\<open>deleteToolSession\<close> or
  \<^verbatim>\<open>updateToolsForSession\<close>, with any session id and any update function, the contents
  of \<open>T1\<close>, its session keys and the sequence of each, are what they were: the
  operations write to maps that they have just built, never to an old one.
\<close>

theorem copy_on_write_isolation:
  assumes "wf_world w" and "T1 < length (Maps (heap w))"
  shows "snapshot (heap (snd (ensureToolSession sid w :: ('e + unit) \<times> 't world))) T1 = snapshot (heap w) T1 \<and>
         snapshot (heap (snd (resetToolsForSession sid w :: ('e + unit) \<times> 't world))) T1 = snapshot (heap w) T1 \<and>
         snapshot (heap (snd (deleteToolSession sid w :: ('e + unit) \<times> 't world))) T1 = snapshot (heap w) T1 \<and>
         snapshot (heap (snd (updateToolsForSession sid updateFn w :: ('e + addr) \<times> 't world))) T1 = snapshot (heap w) T1"
proof -
  have "wf_heap (heap w)" using assms(1) by (simp add: wf_world_def)
  then show ?thesis
    by (simp add: snapshot_mono[OF _ assms(2)] ops_heap_le[OF assms(1)])
qed

text \<open>
  The theorem at the populated process, for the map under \<^verbatim>\<open>tools\<close> (address 1), with a
  new session ensured and the session s1 reset, deleted and updated.
\<close>

theorem copy_on_write_isolation_witness:
  "wf_world populated_world \<and> 1 < length (Maps (heap populated_world)) \<and>
   snapshot (heap populated_world) 1 = [(''default'', []), (''s1'', [7])] \<and>
   snapshot (heap (snd (ensureToolSession (Some ''s2'') populated_world :: (unit + unit) \<times> nat world))) 1
     = [(''default'', []), (''s1'', [7])] \<and>
   snapshot (heap (snd (resetToolsForSession (Some ''s1'') populated_world :: (unit + unit) \<times> nat world))) 1
     = [(''default'', []), (''s1'', [7])] \<and>
   snapshot (heap (snd (deleteToolSession (Some ''s1'') populated_world :: (unit + unit) \<times> nat world))) 1
     = [(''default'', []), (''s1'', [7])] \<and>
   snapshot (heap (snd (updateToolsForSession (Some ''s1'') (\<lambda>ts. Inr (ts @ [8])) populated_world
      :: (unit + addr) \<times> nat world))) 1
     = [(''default'', []), (''s1'', [7])]"
proof -
  have b: "1 < length (Maps (heap populated_world))"
    and s: "snapshot (heap populated_world) 1 = [(''default'', []), (''s1'', [7])]"
    by (simp_all add: populated_world_eq snapshot_def)
  show ?thesis
    using copy_on_write_isolation[where 'e = unit, OF wf_populated b, of "Some ''s2''"]
      copy_on_write_isolation[where 'e = unit, OF wf_populated b, of "Some ''s1''" "\<lambda>ts. Inr (ts @ [8])"]
      wf_populated b s
    by simp
qed

section \<open>Ensure\<close>

text \<open>
  C5. In a well-formed state, \<^verbatim>\<open>ensureToolSession(s)\<close> called twice leaves the state that
  one call leaves. When \<open>s\<close> already has an entry, the call changes nothing at all: the
  state is the one it found (the \<^verbatim>\<open>tools\<close> key holds the same map reference, no map was
  built) and the sequence of \<open>s\<close> is what it was, not reset to empty.
\<close>

theorem ensure_idempotent:
  assumes "wf_world w"
  shows "snd (ensureToolSession s (snd (ensureToolSession s w :: ('e + unit) \<times> 't world)) :: ('e + unit) \<times> 't world)
           = snd (ensureToolSession s w :: ('e + unit) \<times> 't world) \<and>
         (session_tools w s \<noteq> None \<longrightarrow>
            (ensureToolSession s w :: ('e + unit) \<times> 't world) = (Inr (), snd (getInstance w)) \<and>
            entry (snd (ensureToolSession s w :: ('e + unit) \<times> 't world)) Tools = entry w Tools \<and>
            session_tools (snd (ensureToolSession s w :: ('e + unit) \<times> 't world)) s = session_tools w s)"
proof -
  obtain cache w1 where g: "getInstance w = (cache, w1)" by (cases "getInstance w")
  note l = getInstance_live(1,2)[OF assms g]
  let ?E = "ensureToolSession s :: 't world \<Rightarrow> ('e + unit) \<times> 't world"
  have e: "?E w = ?E w1" by (rule ops_getInstance(1)[OF g])
  have f: "frame w1 cache (snd (?E w1))" by (rule ensure_frame_live[OF l])
  then have l2: "live (snd (?E w1)) cache" by (simp add: frame_def)
  have present: "session_tools (snd (?E w1)) s \<noteq> None"
    by (simp add: ops_spec(1)[OF l(1)])
  have noop: "?E v = (Inr (), v)" if "live v cache" "session_tools v s \<noteq> None" for v :: "'t world"
    using that by (simp add: ensure_exec[OF that(1)] live_obs[OF that(1)] Let_def)
  have 1: "snd (?E (snd (?E w))) = snd (?E w)"
    using noop[OF l2 present] by (simp add: e)
  have 2: "?E w = (Inr (), snd (getInstance w)) \<and> entry (snd (?E w)) Tools = entry w Tools \<and>
      session_tools (snd (?E w)) s = session_tools w s" if "session_tools w s \<noteq> None"
  proof -
    have "session_tools w1 s \<noteq> None" using that by (simp add: obs_getInstance(3)[OF g])
    from noop[OF l(2) this] show ?thesis
      by (simp add: e g obs_getInstance[OF g])
  qed
  show ?thesis using 1 2 by blast
qed

text \<open>The theorem at the populated process, for the session s1 that holds the tool 7.\<close>

theorem ensure_idempotent_witness:
  "wf_world populated_world \<and> session_tools populated_world (Some ''s1'') \<noteq> None \<and>
   snd (ensureToolSession (Some ''s1'')
          (snd (ensureToolSession (Some ''s1'') populated_world :: (unit + unit) \<times> nat world))
        :: (unit + unit) \<times> nat world)
     = snd (ensureToolSession (Some ''s1'') populated_world :: (unit + unit) \<times> nat world) \<and>
   (ensureToolSession (Some ''s1'') populated_world :: (unit + unit) \<times> nat world)
     = (Inr (), populated_world) \<and>
   session_tools (snd (ensureToolSession (Some ''s1'') populated_world :: (unit + unit) \<times> nat world))
     (Some ''s1'') = Some [7]"
  using ensure_idempotent[where 'e = unit, OF wf_populated, of "Some ''s1''"]
  by (simp add: wf_populated session_tools_populated getInstance_populated)

section \<open>Delete\<close>

text \<open>
  C6. In a well-formed state, after \<^verbatim>\<open>deleteToolSession(s)\<close> the resolved session has no
  entry in the map under \<^verbatim>\<open>tools\<close>; \<^verbatim>\<open>getToolsForSession(s)\<close> then returns an empty
  sequence and the session still has no entry afterwards; \<^verbatim>\<open>ensureToolSession(s)\<close> after
  the delete binds the session to an empty sequence, whatever it held before the delete.
  When \<open>s\<close> had no entry, \<^verbatim>\<open>deleteToolSession(s)\<close> leaves the state as it found it.
\<close>

theorem delete_semantics:
  assumes "wf_world w"
  shows "session_tools (snd (deleteToolSession s w :: ('e + unit) \<times> 't world)) s = None \<and>
         returned (getToolsForSession s (snd (deleteToolSession s w :: ('e + unit) \<times> 't world))
           :: ('e + addr) \<times> 't world) = Some [] \<and>
         session_tools (snd (getToolsForSession s (snd (deleteToolSession s w :: ('e + unit) \<times> 't world))
           :: ('e + addr) \<times> 't world)) s = None \<and>
         session_tools (snd (ensureToolSession s (snd (deleteToolSession s w :: ('e + unit) \<times> 't world))
           :: ('e + unit) \<times> 't world)) s = Some [] \<and>
         (session_tools w s = None \<longrightarrow>
            (deleteToolSession s w :: ('e + unit) \<times> 't world) = (Inr (), snd (getInstance w)))"
proof -
  let ?d = "snd (deleteToolSession s w :: ('e + unit) \<times> 't world)"
  have d: "wf_world ?d" by (rule ops_wf(3)[OF assms])
  have 1: "session_tools ?d s = None" by (simp add: ops_spec(3)[OF assms])
  then have c: "cur ?d s = []" by (simp add: cur_def)
  have 5: "(deleteToolSession s w :: ('e + unit) \<times> 't world) = (Inr (), snd (getInstance w))"
    if "session_tools w s = None"
  proof -
    obtain cache w1 where g: "getInstance w = (cache, w1)" by (cases "getInstance w")
    note l = getInstance_live(1,2)[OF assms g]
    have "session_tools w1 s = None" using that by (simp add: obs_getInstance(3)[OF g])
    then show ?thesis
      by (simp add: ops_getInstance(3)[OF g] g delete_exec[OF l(2)] live_obs(3)[OF l(2)] Let_def)
  qed
  show ?thesis
    using 1 5 by (simp add: ops_spec[OF d] c)
qed

text \<open>
  The theorem at the populated process: for the session s1, which holds the tool 7, and
  for the session s2, which has no entry.
\<close>

theorem delete_semantics_witness:
  "wf_world populated_world \<and>
   session_tools populated_world (Some ''s1'') = Some [7] \<and>
   session_tools (snd (deleteToolSession (Some ''s1'') populated_world :: (unit + unit) \<times> nat world))
     (Some ''s1'') = None \<and>
   returned (getToolsForSession (Some ''s1'')
     (snd (deleteToolSession (Some ''s1'') populated_world :: (unit + unit) \<times> nat world))
     :: (unit + addr) \<times> nat world) = Some [] \<and>
   session_tools (snd (ensureToolSession (Some ''s1'')
     (snd (deleteToolSession (Some ''s1'') populated_world :: (unit + unit) \<times> nat world))
     :: (unit + unit) \<times> nat world)) (Some ''s1'') = Some [] \<and>
   session_tools populated_world (Some ''s2'') = None \<and>
   (deleteToolSession (Some ''s2'') populated_world :: (unit + unit) \<times> nat world)
     = (Inr (), populated_world)"
  using delete_semantics[where 'e = unit, OF wf_populated, of "Some ''s1''"]
    delete_semantics[where 'e = unit, OF wf_populated, of "Some ''s2''"]
  by (simp add: wf_populated session_tools_populated getInstance_populated)

section \<open>Reset\<close>

text \<open>
  C7. In a well-formed state, \<^verbatim>\<open>updateToolsForSession(s, f)\<close>, then
  \<^verbatim>\<open>resetToolsForSession(s)\<close>, then \<^verbatim>\<open>getToolsForSession(s)\<close> returns an empty
  sequence, for every \<open>f\<close> (also one that throws, when the caller goes on). And
  \<^verbatim>\<open>resetToolsForSession(s)\<close> alone binds the resolved session to an empty sequence,
  whether or not it had an entry.
\<close>

theorem reset_semantics:
  assumes "wf_world w"
  shows "returned (getToolsForSession s
           (snd (resetToolsForSession s
             (snd (updateToolsForSession s f w :: ('e + addr) \<times> 't world)) :: ('e + unit) \<times> 't world))
           :: ('e + addr) \<times> 't world) = Some [] \<and>
         session_tools (snd (resetToolsForSession s w :: ('e + unit) \<times> 't world)) s = Some []"
proof -
  let ?u = "snd (updateToolsForSession s f w :: ('e + addr) \<times> 't world)"
  let ?r = "snd (resetToolsForSession s ?u :: ('e + unit) \<times> 't world)"
  have u: "wf_world ?u" by (rule ops_wf(5)[OF assms])
  have r: "wf_world ?r" by (rule ops_wf(2)[OF u])
  have "session_tools ?r s = Some []" by (simp add: ops_spec(2)[OF u])
  then have "cur ?r s = []" by (simp add: cur_def)
  then show ?thesis
    by (simp add: ops_spec(5)[OF r] ops_spec(2)[OF assms])
qed

text \<open>The theorem at the populated process, where the update adds the tool 8 to s1.\<close>

theorem reset_semantics_witness:
  "wf_world populated_world \<and>
   returned (getToolsForSession (Some ''s1'')
     (snd (resetToolsForSession (Some ''s1'')
       (snd (updateToolsForSession (Some ''s1'') (\<lambda>ts. Inr (ts @ [8])) populated_world
          :: (unit + addr) \<times> nat world)) :: (unit + unit) \<times> nat world))
     :: (unit + addr) \<times> nat world) = Some [] \<and>
   session_tools (snd (resetToolsForSession (Some ''s1'') populated_world :: (unit + unit) \<times> nat world))
     (Some ''s1'') = Some []"
  using reset_semantics[where 'e = unit, OF wf_populated, of "Some ''s1''" "\<lambda>ts. Inr (ts @ [8])"]
  by (simp add: wf_populated)

section \<open>Session identifiers\<close>

text \<open>
  C3, as amended. \<^verbatim>\<open>resolveToolSessionId\<close> returns every string it is given, the empty
  string included, and \<open>''default''\<close> only for an omitted (undefined) argument. It takes
  and returns values only, no state.
\<close>

theorem resolveToolSessionId_spec:
  "resolveToolSessionId (Some s) = s \<and> resolveToolSessionId None = ''default''"
  by (simp add: resolveToolSessionId_def DEFAULT_TOOL_SESSION_ID_def)

text \<open>
  C3 as stated fails: the empty string is a provided argument, and \<^verbatim>\<open>??\<close> replaces only
  \<^verbatim>\<open>undefined\<close> and \<^verbatim>\<open>null\<close>, so the result is the empty string and not \<open>''default''\<close>.
\<close>

theorem resolveToolSessionId_empty_counterexample:
  "resolveToolSessionId (Some '''') = '''' \<and> resolveToolSessionId (Some '''') \<noteq> ''default''"
  by (simp add: resolveToolSessionId_def)

section \<open>Read\<close>

text \<open>
  C8. In a well-formed state, \<^verbatim>\<open>getToolsForSession(s)\<close> leaves the \<^verbatim>\<open>tools\<close> key with the
  same map reference and the contents of the cache as they were; the session \<open>s\<close> has
  an entry afterwards exactly when it had one before, so reading a session without an
  entry creates none and returns an empty sequence. The promise delivers the sequence
  of the session in an array that did not exist before the call, and whatever a caller
  then writes into that array, the contents of the cache stay what they were.
\<close>

theorem read_is_pure_and_defensive:
  assumes "wf_world w"
  shows "case (getToolsForSession s w :: ('e + addr) \<times> 't world) of (r, w') \<Rightarrow>
         entry w' Tools = entry w Tools \<and>
         cache_state w' = cache_state w \<and>
         session_tools w' s = session_tools w s \<and>
         returned (r, w') = Some (cur w s) \<and>
         (session_tools w s = None \<longrightarrow> session_tools w' s = None \<and> returned (r, w') = Some []) \<and>
         (\<exists>a. r = Inr a \<and> length (Arrays (heap (snd (getInstance w)))) \<le> a \<and>
              (\<forall>ys. cache_state (w'\<lparr>heap := Array_assign a ys (heap w')\<rparr>) = cache_state w))"
proof -
  obtain r w' where rw: "(getToolsForSession s w :: ('e + addr) \<times> 't world) = (r, w')"
    by (cases "getToolsForSession s w :: ('e + addr) \<times> 't world")
  obtain cache w1 where g: "getInstance w = (cache, w1)" by (cases "getInstance w")
  note l = getInstance_live(1,2)[OF assms(1) g]
  have r: "(getToolsForSession s w1 :: ('e + addr) \<times> 't world) = (r, w')"
    using rw by (simp add: ops_getInstance(4)[OF g])
  from get_shape[OF l(2) r] obtain a new where a: "r = Inr a"
    and w': "w' = w1\<lparr>heap := (heap w1)\<lparr>Arrays := Arrays (heap w1) @ new\<rparr>\<rparr>"
    and fresh: "length (Arrays (heap w1)) \<le> a" by blast
  have 1: "entry w' Tools = entry w Tools" "cache_state w' = cache_state w"
    using obs_alloc[OF l(1), of new] by (simp_all add: w' obs_getInstance[OF g])
  have "session_tools (snd (getToolsForSession s w :: ('e + addr) \<times> 't world)) s = session_tools w s"
    by (rule ops_spec(4)[OF assms(1)])
  then have 2: "session_tools w' s = session_tools w s"
    by (simp add: rw)
  have "returned (getToolsForSession s w :: ('e + addr) \<times> 't world) = Some (cur w s)"
    by (rule ops_spec(5)[OF assms(1)])
  then have 3: "returned (r, w') = Some (cur w s)"
    by (simp add: rw)
  have 4: "cache_state (w'\<lparr>heap := Array_assign a ys (heap w')\<rparr>) = cache_state w" for ys
  proof -
    have "w'\<lparr>heap := Array_assign a ys (heap w')\<rparr> =
          w1\<lparr>heap := (heap w1)\<lparr>Arrays := Arrays (heap w1) @ new[a - length (Arrays (heap w1)) := ys]\<rparr>\<rparr>"
      using fresh by (simp add: w' Array_assign_def list_update_append)
    then show ?thesis
      using obs_alloc[OF l(1), of "new[a - length (Arrays (heap w1)) := ys]"]
      by (simp add: obs_getInstance[OF g])
  qed
  show ?thesis
    using 1 2 3 4 a fresh by (auto simp: rw g cur_def)
qed

text \<open>
  The theorem at the populated process: for the session s1, which holds the tool 7, and
  for the session s2, which has no entry.
\<close>

theorem read_is_pure_and_defensive_witness:
  "wf_world populated_world \<and>
   (case (getToolsForSession (Some ''s1'') populated_world :: (unit + addr) \<times> nat world) of (r, w') \<Rightarrow>
      entry w' Tools = entry populated_world Tools \<and>
      cache_state w' = cache_state populated_world \<and>
      returned (r, w') = Some [7] \<and>
      (\<exists>a. r = Inr a \<and> (\<forall>ys. cache_state (w'\<lparr>heap := Array_assign a ys (heap w')\<rparr>) = cache_state populated_world))) \<and>
   session_tools populated_world (Some ''s2'') = None \<and>
   (case (getToolsForSession (Some ''s2'') populated_world :: (unit + addr) \<times> nat world) of (r, w') \<Rightarrow>
      session_tools w' (Some ''s2'') = None \<and> returned (r, w') = Some [])"
  using read_is_pure_and_defensive[where 'e = unit, OF wf_populated, of "Some ''s1''"]
    read_is_pure_and_defensive[where 'e = unit, OF wf_populated, of "Some ''s2''"]
  by (auto simp: wf_populated session_tools_populated cur_def split: prod.splits)

section \<open>A failing update\<close>




section \<open>One key at a time\<close>

text \<open>
  C10. In a well-formed state, each of \<^verbatim>\<open>ensureToolSession\<close>, \<^verbatim>\<open>resetToolsForSession\<close>,
  \<^verbatim>\<open>deleteToolSession\<close> and \<^verbatim>\<open>updateToolsForSession\<close> leaves the \<^verbatim>\<open>allowedOrgs\<close> key with
  the reference it held and the set with its elements. \<^verbatim>\<open>safeSet('allowedOrgs', v)\<close> and
  \<^verbatim>\<open>safeUpdate('allowedOrgs', g)\<close> leave the \<^verbatim>\<open>tools\<close> key with the reference it held;
  the contents of the tool map are the same after the \<^verbatim>\<open>safeSet\<close>, and after the
  \<^verbatim>\<open>safeUpdate\<close> when \<open>g\<close> left the objects of the heap as they were. In general
  \<^verbatim>\<open>safeSet(k, v)\<close> and \<^verbatim>\<open>safeUpdate(k, g)\<close> leave the reference under the other key.
\<close>

theorem key_frame:
  assumes "wf_world w"
  shows "entry (snd (ensureToolSession sid w :: ('e + unit) \<times> 't world)) AllowedOrgs = entry w AllowedOrgs \<and>
         fst (cache_state (snd (ensureToolSession sid w :: ('e + unit) \<times> 't world))) = fst (cache_state w) \<and>
         entry (snd (resetToolsForSession sid w :: ('e + unit) \<times> 't world)) AllowedOrgs = entry w AllowedOrgs \<and>
         fst (cache_state (snd (resetToolsForSession sid w :: ('e + unit) \<times> 't world))) = fst (cache_state w) \<and>
         entry (snd (deleteToolSession sid w :: ('e + unit) \<times> 't world)) AllowedOrgs = entry w AllowedOrgs \<and>
         fst (cache_state (snd (deleteToolSession sid w :: ('e + unit) \<times> 't world))) = fst (cache_state w) \<and>
         entry (snd (updateToolsForSession sid f w :: ('e + addr) \<times> 't world)) AllowedOrgs = entry w AllowedOrgs \<and>
         fst (cache_state (snd (updateToolsForSession sid f w :: ('e + addr) \<times> 't world))) = fst (cache_state w) \<and>
         entry (snd (safeSet AllowedOrgs v w :: ('e + unit) \<times> 't world)) Tools = entry w Tools \<and>
         snd (cache_state (snd (safeSet AllowedOrgs v w :: ('e + unit) \<times> 't world))) = snd (cache_state w) \<and>
         entry (snd (safeUpdate AllowedOrgs g w :: ('e + addr) \<times> 't world)) Tools = entry w Tools \<and>
         (heap_le (heap (snd (getInstance w))) (snd (g (entry w AllowedOrgs) (heap (snd (getInstance w))))) \<longrightarrow>
            snd (cache_state (snd (safeUpdate AllowedOrgs g w :: ('e + addr) \<times> 't world))) = snd (cache_state w)) \<and>
         (k' \<noteq> k \<longrightarrow>
            entry (snd (safeSet k v w :: ('e + unit) \<times> 't world)) k' = entry w k' \<and>
            entry (snd (safeUpdate k g w :: ('e + addr) \<times> 't world)) k' = entry w k')"
proof -
  obtain cache w1 where g: "getInstance w = (cache, w1)" by (cases "getInstance w")
  note l = getInstance_live(1,2)[OF assms g]
  note o = obs_getInstance[OF g]
  obtain cache' w2 where u: "updateTools_launch w = (cache', w2)" by (cases "updateTools_launch w")
  note lp = launch_props[OF assms u]
  note tool = frame_orgs[OF l ops_frame(1)[OF assms g]] frame_orgs[OF l ops_frame(2)[OF assms g]]
    frame_orgs[OF l ops_frame(3)[OF assms g]]
  note upd = frame_orgs[OF lp(1,2) update_frame[OF assms u]]
  have sset: "(safeSet k v w :: ('e + unit) \<times> 't world) = (Inr (), Cache_set cache k v w1)" for k
    by (simp add: safe_getInstance(3)[OF g] safeSet_exec[OF l(2)])
  have supd: "snd (safeUpdate k g w :: ('e + addr) \<times> 't world) =
      (case g (entry w k) (heap w1) of
         (Inl e, h) \<Rightarrow> w1\<lparr>heap := h\<rparr>
       | (Inr newValue, h) \<Rightarrow> Cache_set cache k newValue (w1\<lparr>heap := h\<rparr>))" for k
    by (simp add: safeUpdate_def g lock_def safeUpdate_section_def entry_def split: prod.splits sum.splits)
  have slot: "entry (snd (safeUpdate k g w :: ('e + addr) \<times> 't world)) k' = entry w k'"
    if "k' \<noteq> k" for k k'
  proof -
    have lh: "live (w1\<lparr>heap := h\<rparr>) cache" for h using l(2) by (simp add: live_def)
    have "entry (w1\<lparr>heap := h\<rparr>) k' = entry w1 k'" for h
      by (simp add: live_obs(1)[OF lh] live_obs(1)[OF l(2)] split: key.splits)
    then show ?thesis
      by (simp add: supd Cache_set_other[OF lh that] o split: prod.splits sum.splits)
  qed
  have pure: "snd (cache_state (snd (safeUpdate AllowedOrgs g w :: ('e + addr) \<times> 't world))) = snd (cache_state w)"
    if "heap_le (heap (snd (getInstance w))) (snd (g (entry w AllowedOrgs) (heap (snd (getInstance w)))))"
  proof -
    have lh: "live (w1\<lparr>heap := h\<rparr>) cache" for h using l(2) by (simp add: live_def)
    obtain r h where gr: "g (entry w AllowedOrgs) (heap w1) = (r, h)"
      by (cases "g (entry w AllowedOrgs) (heap w1)")
    have "heap_le (heap w1) h" using that by (simp add: g gr)
    from obs_heap_le(2)[OF l this] have "cache_state (w1\<lparr>heap := h\<rparr>) = cache_state w" by (simp add: o)
    then show ?thesis
      by (cases r) (simp_all add: supd gr Cache_set_orgs_tools[OF lh])
  qed
  show ?thesis
    using slot pure
    by (simp add: tool upd o lp sset Cache_set_other[OF l(2)] Cache_set_orgs_tools[OF l(2)])
qed

text \<open>The theorem at the populated process.\<close>

theorem key_frame_witness:
  "wf_world populated_world \<and>
   entry (snd (updateToolsForSession (Some ''s1'') (\<lambda>ts. Inr (ts @ [8])) populated_world
     :: (unit + addr) \<times> nat world)) AllowedOrgs = entry populated_world AllowedOrgs \<and>
   entry (snd (safeSet AllowedOrgs 0 populated_world :: (unit + unit) \<times> nat world)) Tools
     = entry populated_world Tools \<and>
   heap_le (heap (snd (getInstance populated_world)))
     (snd ((\<lambda>v h. (Inr v :: unit + addr, h)) (entry populated_world AllowedOrgs)
        (heap (snd (getInstance populated_world))))) \<and>
   snd (cache_state (snd (safeUpdate AllowedOrgs (\<lambda>v h. (Inr v, h)) populated_world
     :: (unit + addr) \<times> nat world))) = snd (cache_state populated_world) \<and>
   Tools \<noteq> AllowedOrgs \<and>
   entry (snd (safeUpdate AllowedOrgs (\<lambda>v h. (Inr v, h)) populated_world
     :: (unit + addr) \<times> nat world)) Tools = entry populated_world Tools"
  using key_frame[where 'e = unit, OF wf_populated,
      of "Some ''s1''" "\<lambda>ts. Inr (ts @ [8])" 0 "\<lambda>v h. (Inr v, h)" Tools AllowedOrgs]
    wf_populated
  by (simp add: heap_le_refl)

section \<open>Concurrent updates\<close>




end
